theory Spec2Isabelle
  imports Complex_Main "HOL-Library.Sublist"
begin

section \<open>Numbers: \<open>Math.max\<close>, \<open>Math.min\<close> and the private \<open>clamp\<close>\<close>

text \<open>
  The numeric arguments of the facade are modelled as real numbers, the domain the
  specification quantifies over (``for all real values v'', ``clamp is total over all
  finite reals''). The bounds 0, 1, 3 and 10 are exact in every number format, and
  \<open>Math.max\<close>/\<open>Math.min\<close> return one of their arguments, so no rounding takes place
  in \<open>clamp\<close>; the attributes of the platform's utterance round, see below.
  The infinities and the not-a-number value of the host language are outside this model.
\<close>

definition Math_max :: "real \<Rightarrow> real \<Rightarrow> real" where
  "Math_max a b = (if a < b then b else a)"

definition Math_min :: "real \<Rightarrow> real \<Rightarrow> real" where
  "Math_min a b = (if b < a then b else a)"

text \<open>
  \<^verbatim>\<open>private clamp(min, value, max) {
    const minClampedValue = Math.max(value, min);
    const fullyClampedValue = Math.min(minClampedValue, max);
    return fullyClampedValue; }\<close>
\<close>

definition clamp :: "real \<Rightarrow> real \<Rightarrow> real \<Rightarrow> real" where
  "clamp minimum value maximum =
     (let minClampedValue = Math_max value minimum;
          fullyClampedValue = Math_min minClampedValue maximum
      in fullyClampedValue)"

text \<open>
  The reference definition of the specification, in its words: ``the max of the value and
  the lower bound, then the min of that result and the upper bound''.
\<close>

definition clamp_reference :: "real \<Rightarrow> real \<Rightarrow> real \<Rightarrow> real" where
  "clamp_reference lower value upper = min (max value lower) upper"


section \<open>The float attributes of the platform\<close>

text \<open>
  \<open>rate\<close>, \<open>pitch\<close> and \<open>volume\<close> of the platform's utterance are single precision
  attributes: a number assigned to one is rounded to the nearest single precision value
  (ties to even), and the platform keeps rate between the single precision 0.1 and 10,
  pitch between 0 and 2, volume between 0 and 1. The facade only ever assigns numbers
  between 0 and 10, far from overflow.
\<close>

definition pow2 :: "int \<Rightarrow> real" where
  "pow2 n = (if 0 \<le> n then 2 ^ nat n else 1 / 2 ^ nat (- n))"

definition round_half_even :: "real \<Rightarrow> int" where
  "round_half_even y =
     (let n = \<lfloor>y\<rfloor>
      in if y - of_int n < 1/2 then n
         else if 1/2 < y - of_int n then n + 1
         else if even n then n else n + 1)"

text \<open>The binary exponent of a single precision value; subnormals share the least one.\<close>

definition float32_exponent :: "real \<Rightarrow> int" where
  "float32_exponent x = max (-126) \<lfloor>log 2 \<bar>x\<bar>\<rfloor>"

text \<open>Rounding to single precision: 24 significant bits.\<close>

definition float32 :: "real \<Rightarrow> real" where
  "float32 x =
     (if x = 0 then 0
      else of_int (round_half_even (x / pow2 (float32_exponent x - 23))) *
           pow2 (float32_exponent x - 23))"

definition limit :: "real \<Rightarrow> real \<Rightarrow> real \<Rightarrow> real" where
  "limit lowest highest x = (if x \<le> lowest then lowest else if highest \<le> x then highest else x)"

text \<open>What the utterance holds after \<open>utterance.rate = x\<close>, and likewise for the others.\<close>

definition rate_attribute :: "real \<Rightarrow> real" where
  "rate_attribute x = limit (float32 (1/10)) 10 (float32 x)"

definition pitch_attribute :: "real \<Rightarrow> real" where
  "pitch_attribute x = limit 0 2 (float32 x)"

definition volume_attribute :: "real \<Rightarrow> real" where
  "volume_attribute x = limit 0 1 (float32 x)"


section \<open>The objects of the platform and of the facade\<close>

type_synonym ref = nat

text \<open>A caller-supplied function object is known by its identity only.\<close>

type_synonym handler = nat
type_synonym callback = nat

datatype error = TypeError

record SpeechSynthesisVoice =
  voiceURI :: string
  name :: string
  lang :: string

text \<open>
  The platform's utterance object: the six configuration attributes and the seven event
  handler attributes the facade writes. An unset handler or voice is \<open>None\<close>.
\<close>

record SpeechSynthesisUtterance =
  utterance_text :: string
  utterance_lang :: string
  voice :: "SpeechSynthesisVoice option"
  volume :: real
  rate :: real
  pitch :: real
  onboundary :: "handler option"
  onend :: "handler option"
  onerror :: "handler option"
  onmark :: "handler option"
  onpause :: "handler option"
  onresume :: "handler option"
  onstart :: "handler option"

text \<open>
  \<open>new SpeechSynthesisUtterance()\<close> of the platform: empty text and language, no
  voice, volume, rate and pitch 1, no handler.
\<close>

definition new_SpeechSynthesisUtterance :: SpeechSynthesisUtterance where
  "new_SpeechSynthesisUtterance =
     \<lparr>utterance_text = [], utterance_lang = [], voice = None,
      volume = 1, rate = 1, pitch = 1,
      onboundary = None, onend = None, onerror = None, onmark = None,
      onpause = None, onresume = None, onstart = None\<rparr>"

text \<open>
  The function object \<open>function () { callback(_this.getVoices()); }\<close> that
  \<open>setOnVoicesChanged\<close> creates: a fresh identity and the two captured variables.
\<close>

record closure =
  closure_id :: ref
  captured_this :: ref
  captured_callback :: callback

text \<open>
  The process-wide engine \<open>speechSynthesis\<close>: its voice catalog, the listeners of its
  \<open>voiceschanged\<close> event, the utterances submitted to it and its paused flag.
\<close>

record SpeechSynthesis =
  voices :: "SpeechSynthesisVoice list"
  listeners :: "closure list"
  queue :: "ref list"
  paused :: bool

record TextToSpeech =
  utterance :: ref

text \<open>
  The store: the facade instances and the utterance objects by address, the engine, the
  next free address, and the record of every call of a \<open>voiceschanged\<close> callback with
  the argument it received.
\<close>

record world =
  instances :: "ref \<rightharpoonup> TextToSpeech"
  utterance_objects :: "ref \<rightharpoonup> SpeechSynthesisUtterance"
  speechSynthesis :: SpeechSynthesis
  next_ref :: ref
  invoked :: "(callback \<times> SpeechSynthesisVoice list) list"

definition initial_world :: "SpeechSynthesisVoice list \<Rightarrow> world" where
  "initial_world catalog =
     \<lparr>instances = Map.empty, utterance_objects = Map.empty,
      speechSynthesis = \<lparr>voices = catalog, listeners = [], queue = [], paused = False\<rparr>,
      next_ref = 0, invoked = []\<rparr>"

text \<open>
  \<open>constructor() { this.utterance = new SpeechSynthesisUtterance(); }\<close>: the instance
  and its utterance object are allocated together.
\<close>

definition new_TextToSpeech :: "world \<Rightarrow> world \<times> ref" where
  "new_TextToSpeech w =
     (let this = next_ref w; u = next_ref w + 1
      in (w\<lparr>instances := (instances w)(this \<mapsto> \<lparr>utterance = u\<rparr>),
            utterance_objects := (utterance_objects w)(u \<mapsto> new_SpeechSynthesisUtterance),
            next_ref := next_ref w + 2\<rparr>, this))"


section \<open>The configuration setters\<close>

text \<open>
  \<open>this.utterance.<attribute> = <value>\<close>: reading \<open>utterance\<close> of something that is
  not an instance, or an attribute of a missing object, is a \<open>TypeError\<close>.
\<close>

definition assign :: "ref \<Rightarrow> (SpeechSynthesisUtterance \<Rightarrow> SpeechSynthesisUtterance) \<Rightarrow> world
    \<Rightarrow> error + world" where
  "assign this f w =
     (case instances w this of
        None \<Rightarrow> Inl TypeError
      | Some t \<Rightarrow>
          (case utterance_objects w (utterance t) of
             None \<Rightarrow> Inl TypeError
           | Some u \<Rightarrow> Inr (w\<lparr>utterance_objects := (utterance_objects w)(utterance t \<mapsto> f u)\<rparr>)))"

text \<open>\<open>return this;\<close> after a statement that may have thrown.\<close>

definition return_this :: "ref \<Rightarrow> error + world \<Rightarrow> error + world \<times> ref" where
  "return_this this r = (case r of Inl e \<Rightarrow> Inl e | Inr w' \<Rightarrow> Inr (w', this))"

definition setVoiceRate :: "ref \<Rightarrow> real \<Rightarrow> world \<Rightarrow> error + world \<times> ref" where
  "setVoiceRate this rate_value w =
     return_this this (assign this (\<lambda>u. u\<lparr>rate := rate_attribute (clamp 0 rate_value 10)\<rparr>) w)"

definition setVoicePitch :: "ref \<Rightarrow> real \<Rightarrow> world \<Rightarrow> error + world \<times> ref" where
  "setVoicePitch this pitch_value w =
     return_this this (assign this (\<lambda>u. u\<lparr>pitch := pitch_attribute (clamp 0 pitch_value 3)\<rparr>) w)"

definition setVolume :: "ref \<Rightarrow> real \<Rightarrow> world \<Rightarrow> error + world \<times> ref" where
  "setVolume this volumeLevel w =
     return_this this (assign this (\<lambda>u. u\<lparr>volume := volume_attribute (clamp 0 volumeLevel 1)\<rparr>) w)"

definition setLanguage :: "ref \<Rightarrow> string \<Rightarrow> world \<Rightarrow> error + world \<times> ref" where
  "setLanguage this languageCode w =
     return_this this (assign this (\<lambda>u. u\<lparr>utterance_lang := languageCode\<rparr>) w)"

definition setVoiceSpeech :: "ref \<Rightarrow> SpeechSynthesisVoice \<Rightarrow> world \<Rightarrow> error + world \<times> ref" where
  "setVoiceSpeech this voiceObject w =
     return_this this (assign this (\<lambda>u. u\<lparr>voice := Some voiceObject\<rparr>) w)"

definition setVoiceText :: "ref \<Rightarrow> string \<Rightarrow> world \<Rightarrow> error + world \<times> ref" where
  "setVoiceText this utteranceText w =
     return_this this (assign this (\<lambda>u. u\<lparr>utterance_text := utteranceText\<rparr>) w)"


section \<open>The event handler setters\<close>

definition setOnBoundary :: "ref \<Rightarrow> handler \<Rightarrow> world \<Rightarrow> error + world \<times> ref" where
  "setOnBoundary this h w =
     return_this this (assign this (\<lambda>u. u\<lparr>onboundary := Some h\<rparr>) w)"

definition setOnEnd :: "ref \<Rightarrow> handler \<Rightarrow> world \<Rightarrow> error + world \<times> ref" where
  "setOnEnd this h w =
     return_this this (assign this (\<lambda>u. u\<lparr>onend := Some h\<rparr>) w)"

definition setOnError :: "ref \<Rightarrow> handler \<Rightarrow> world \<Rightarrow> error + world \<times> ref" where
  "setOnError this h w =
     return_this this (assign this (\<lambda>u. u\<lparr>onerror := Some h\<rparr>) w)"

definition setOnMark :: "ref \<Rightarrow> handler \<Rightarrow> world \<Rightarrow> error + world \<times> ref" where
  "setOnMark this h w =
     return_this this (assign this (\<lambda>u. u\<lparr>onmark := Some h\<rparr>) w)"

definition setOnPause :: "ref \<Rightarrow> handler \<Rightarrow> world \<Rightarrow> error + world \<times> ref" where
  "setOnPause this h w =
     return_this this (assign this (\<lambda>u. u\<lparr>onpause := Some h\<rparr>) w)"

definition setOnResume :: "ref \<Rightarrow> handler \<Rightarrow> world \<Rightarrow> error + world \<times> ref" where
  "setOnResume this h w =
     return_this this (assign this (\<lambda>u. u\<lparr>onresume := Some h\<rparr>) w)"

definition setOnStart :: "ref \<Rightarrow> handler \<Rightarrow> world \<Rightarrow> error + world \<times> ref" where
  "setOnStart this h w =
     return_this this (assign this (\<lambda>u. u\<lparr>onstart := Some h\<rparr>) w)"


section \<open>The voice query\<close>

text \<open>
  \<open>String.prototype.includes(searchString)\<close>: whether \<open>searchString\<close> occurs at some
  position of the receiver; characters are compared as they are.
\<close>

fun string_includes :: "string \<Rightarrow> string \<Rightarrow> bool" where
  "string_includes [] searchString = (searchString = [])"
| "string_includes (c # cs) searchString =
     (prefix searchString (c # cs) \<or> string_includes cs searchString)"

text \<open>The specification's words: the tag contains the filter as a substring.\<close>

definition contains_substring :: "string \<Rightarrow> string \<Rightarrow> bool" where
  "contains_substring tag f = (\<exists>before after. tag = before @ f @ after)"

text \<open>\<open>!optionalCountryCodeFilter\<close>: an absent argument and the empty string are falsy.\<close>

definition falsy :: "string option \<Rightarrow> bool" where
  "falsy x = (case x of None \<Rightarrow> True | Some s \<Rightarrow> s = [])"

text \<open>
  \<^verbatim>\<open>getVoices = (optionalCountryCodeFilter?) => {
    const voices = speechSynthesis.getVoices();
    if (!optionalCountryCodeFilter) { return voices; }
    return voices.filter((voice) => voice.lang.includes(optionalCountryCodeFilter)); }\<close>
\<close>

definition getVoices :: "string option \<Rightarrow> world \<Rightarrow> SpeechSynthesisVoice list" where
  "getVoices optionalCountryCodeFilter w =
     (let catalog = voices (speechSynthesis w)
      in if falsy optionalCountryCodeFilter then catalog
         else (case optionalCountryCodeFilter of
                 None \<Rightarrow> catalog
               | Some f \<Rightarrow> filter (\<lambda>v. string_includes (lang v) f) catalog))"


section \<open>The engine-wide \<open>voiceschanged\<close> subscription\<close>

text \<open>
  \<open>EventTarget.addEventListener\<close>: a listener is appended unless the same function
  object is already in the list.
\<close>

definition addEventListener :: "closure \<Rightarrow> SpeechSynthesis \<Rightarrow> SpeechSynthesis" where
  "addEventListener l s =
     (if closure_id l \<in> closure_id ` set (listeners s) then s
      else s\<lparr>listeners := listeners s @ [l]\<rparr>)"

text \<open>
  \<^verbatim>\<open>setOnVoicesChanged = (callback) => {
    speechSynthesis.addEventListener("voiceschanged", () => { callback(this.getVoices()); });
    return this; }\<close>
\<close>

definition setOnVoicesChanged :: "ref \<Rightarrow> callback \<Rightarrow> world \<Rightarrow> error + world \<times> ref" where
  "setOnVoicesChanged this cb w =
     (let l = \<lparr>closure_id = next_ref w, captured_this = this, captured_callback = cb\<rparr>
      in Inr (w\<lparr>speechSynthesis := addEventListener l (speechSynthesis w),
                next_ref := next_ref w + 1\<rparr>, this))"

text \<open>
  Running the listener's body \<open>callback(_this.getVoices())\<close>: the call is recorded with
  its argument. What the caller's callback does next is its own business.
\<close>

definition run_closure :: "closure \<Rightarrow> world \<Rightarrow> world" where
  "run_closure l w = w\<lparr>invoked := invoked w @ [(captured_callback l, getVoices None w)]\<rparr>"

text \<open>One firing of the engine's \<open>voiceschanged\<close> event: every listener runs, in order.\<close>

definition dispatch_voiceschanged :: "world \<Rightarrow> world" where
  "dispatch_voiceschanged w = fold run_closure (listeners (speechSynthesis w)) w"

text \<open>The engine replaces its catalog and announces it.\<close>

definition voiceschanged :: "SpeechSynthesisVoice list \<Rightarrow> world \<Rightarrow> world" where
  "voiceschanged catalog w =
     dispatch_voiceschanged (w\<lparr>speechSynthesis := (speechSynthesis w)\<lparr>voices := catalog\<rparr>\<rparr>)"


section \<open>Utterance events\<close>

datatype event_kind = Boundary | End | Error | Mark | Pause | Resume | Start

fun handler_of :: "event_kind \<Rightarrow> SpeechSynthesisUtterance \<Rightarrow> handler option" where
  "handler_of Boundary u = onboundary u"
| "handler_of End u = onend u"
| "handler_of Error u = onerror u"
| "handler_of Mark u = onmark u"
| "handler_of Pause u = onpause u"
| "handler_of Resume u = onresume u"
| "handler_of Start u = onstart u"

text \<open>The callbacks registered for an event kind: those the engine calls when it raises it.\<close>

definition registered :: "event_kind \<Rightarrow> SpeechSynthesisUtterance \<Rightarrow> handler list" where
  "registered k u = (case handler_of k u of None \<Rightarrow> [] | Some h \<Rightarrow> [h])"


section \<open>The control surface\<close>

text \<open>
  \<open>speak\<close>, \<open>cancelSpeech\<close>, \<open>pauseSpeech\<close> and \<open>resumeSpeech\<close> forward to the engine,
  which keeps its own books; none of them writes to an utterance.
\<close>

definition speak :: "ref \<Rightarrow> world \<Rightarrow> error + world" where
  "speak this w =
     (case instances w this of
        None \<Rightarrow> Inl TypeError
      | Some t \<Rightarrow>
          Inr (w\<lparr>speechSynthesis :=
                 (speechSynthesis w)\<lparr>queue := queue (speechSynthesis w) @ [utterance t]\<rparr>\<rparr>))"

definition cancelSpeech :: "world \<Rightarrow> world" where
  "cancelSpeech w = w\<lparr>speechSynthesis := (speechSynthesis w)\<lparr>queue := []\<rparr>\<rparr>"

definition pauseSpeech :: "world \<Rightarrow> world" where
  "pauseSpeech w = w\<lparr>speechSynthesis := (speechSynthesis w)\<lparr>paused := True\<rparr>\<rparr>"

definition resumeSpeech :: "world \<Rightarrow> world" where
  "resumeSpeech w = w\<lparr>speechSynthesis := (speechSynthesis w)\<lparr>paused := False\<rparr>\<rparr>"


section \<open>Calls and runs\<close>

datatype setter =
    SetVoiceRate real
  | SetVoicePitch real
  | SetVolume real
  | SetLanguage string
  | SetVoiceSpeech SpeechSynthesisVoice
  | SetVoiceText string
  | SetOnBoundary handler
  | SetOnEnd handler
  | SetOnError handler
  | SetOnMark handler
  | SetOnPause handler
  | SetOnResume handler
  | SetOnStart handler
  | SetOnVoicesChanged callback

fun call :: "setter \<Rightarrow> ref \<Rightarrow> world \<Rightarrow> error + world \<times> ref" where
  "call (SetVoiceRate x) this w = setVoiceRate this x w"
| "call (SetVoicePitch x) this w = setVoicePitch this x w"
| "call (SetVolume x) this w = setVolume this x w"
| "call (SetLanguage s) this w = setLanguage this s w"
| "call (SetVoiceSpeech v) this w = setVoiceSpeech this v w"
| "call (SetVoiceText s) this w = setVoiceText this s w"
| "call (SetOnBoundary h) this w = setOnBoundary this h w"
| "call (SetOnEnd h) this w = setOnEnd this h w"
| "call (SetOnError h) this w = setOnError this h w"
| "call (SetOnMark h) this w = setOnMark this h w"
| "call (SetOnPause h) this w = setOnPause this h w"
| "call (SetOnResume h) this w = setOnResume this h w"
| "call (SetOnStart h) this w = setOnStart this h w"
| "call (SetOnVoicesChanged cb) this w = setOnVoicesChanged this cb w"

text \<open>The handler setter of each utterance event kind.\<close>

fun setOn :: "event_kind \<Rightarrow> handler \<Rightarrow> setter" where
  "setOn Boundary h = SetOnBoundary h"
| "setOn End h = SetOnEnd h"
| "setOn Error h = SetOnError h"
| "setOn Mark h = SetOnMark h"
| "setOn Pause h = SetOnPause h"
| "setOn Resume h = SetOnResume h"
| "setOn Start h = SetOnStart h"

text \<open>
  What can happen to the store: the caller constructs an instance or calls a method of
  one, the engine changes its catalog. A call that throws leaves the store as it was.
\<close>

datatype action =
    New
  | Set ref setter
  | Speak ref
  | CancelSpeech
  | PauseSpeech
  | ResumeSpeech
  | VoicesChanged "SpeechSynthesisVoice list"

fun step :: "action \<Rightarrow> world \<Rightarrow> world" where
  "step New w = fst (new_TextToSpeech w)"
| "step (Set this s) w = (case call s this w of Inl e \<Rightarrow> w | Inr (w', r) \<Rightarrow> w')"
| "step (Speak this) w = (case speak this w of Inl e \<Rightarrow> w | Inr w' \<Rightarrow> w')"
| "step CancelSpeech w = cancelSpeech w"
| "step PauseSpeech w = pauseSpeech w"
| "step ResumeSpeech w = resumeSpeech w"
| "step (VoicesChanged catalog) w = voiceschanged catalog w"

definition run :: "action list \<Rightarrow> world \<Rightarrow> world" where
  "run actions w = fold step actions w"


section \<open>Predicates of the claims\<close>

definition in_range :: "SpeechSynthesisUtterance \<Rightarrow> bool" where
  "in_range u \<longleftrightarrow>
     0 \<le> rate u \<and> rate u \<le> 10 \<and> 0 \<le> pitch u \<and> pitch u \<le> 3 \<and> 0 \<le> volume u \<and> volume u \<le> 1"

text \<open>The utterance configuration of an instance, when the instance has one.\<close>

definition config :: "world \<Rightarrow> ref \<Rightarrow> SpeechSynthesisUtterance option" where
  "config w this =
     (case instances w this of None \<Rightarrow> None | Some t \<Rightarrow> utterance_objects w (utterance t))"


text \<open>Allocated addresses lie below the next free one.\<close>

definition allocated :: "world \<Rightarrow> bool" where
  "allocated w \<longleftrightarrow>
     (\<forall>this t. instances w this = Some t \<longrightarrow>
        this < next_ref w \<and> utterance t < next_ref w \<and> utterance_objects w (utterance t) \<noteq> None) \<and>
     (\<forall>r u. utterance_objects w r = Some u \<longrightarrow> r < next_ref w) \<and>
     (\<forall>l \<in> set (listeners (speechSynthesis w)). closure_id l < next_ref w)"



text \<open>The callback calls that one firing of \<open>voiceschanged\<close> makes, with their arguments.\<close>

definition calls_of_firing :: "SpeechSynthesisVoice list \<Rightarrow> world
    \<Rightarrow> (callback \<times> SpeechSynthesisVoice list) list" where
  "calls_of_firing catalog w = drop (length (invoked w)) (invoked (voiceschanged catalog w))"

text \<open>The callbacks passed to \<open>setOnVoicesChanged\<close> in a run, in the order of the calls.\<close>

fun subscriptions :: "action list \<Rightarrow> callback list" where
  "subscriptions [] = []"
| "subscriptions (Set this (SetOnVoicesChanged cb) # as) = cb # subscriptions as"
| "subscriptions (a # as) = subscriptions as"

text \<open>The attributes of an utterance, and whether two utterances agree on one.\<close>

datatype attribute = Text | Lang | Voice | Volume | Rate | Pitch | Handler event_kind

fun same_attribute :: "attribute \<Rightarrow> SpeechSynthesisUtterance \<Rightarrow> SpeechSynthesisUtterance \<Rightarrow> bool" where
  "same_attribute Text u u' = (utterance_text u' = utterance_text u)"
| "same_attribute Lang u u' = (utterance_lang u' = utterance_lang u)"
| "same_attribute Voice u u' = (voice u' = voice u)"
| "same_attribute Volume u u' = (volume u' = volume u)"
| "same_attribute Rate u u' = (rate u' = rate u)"
| "same_attribute Pitch u u' = (pitch u' = pitch u)"
| "same_attribute (Handler k) u u' = (handler_of k u' = handler_of k u)"

text \<open>The attribute each setter is for; \<open>setOnVoicesChanged\<close> is for none.\<close>

fun own_attribute :: "setter \<Rightarrow> attribute option" where
  "own_attribute (SetVoiceRate x) = Some Rate"
| "own_attribute (SetVoicePitch x) = Some Pitch"
| "own_attribute (SetVolume x) = Some Volume"
| "own_attribute (SetLanguage s) = Some Lang"
| "own_attribute (SetVoiceSpeech v) = Some Voice"
| "own_attribute (SetVoiceText s) = Some Text"
| "own_attribute (SetOnBoundary h) = Some (Handler Boundary)"
| "own_attribute (SetOnEnd h) = Some (Handler End)"
| "own_attribute (SetOnError h) = Some (Handler Error)"
| "own_attribute (SetOnMark h) = Some (Handler Mark)"
| "own_attribute (SetOnPause h) = Some (Handler Pause)"
| "own_attribute (SetOnResume h) = Some (Handler Resume)"
| "own_attribute (SetOnStart h) = Some (Handler Start)"
| "own_attribute (SetOnVoicesChanged cb) = None"


section \<open>clamp\<close>

lemma clamp_eq: "clamp lower v upper = min (max v lower) upper"
  by (simp add: clamp_def Math_max_def Math_min_def min_def max_def)

text \<open>
  Claim C1. The private clamp function equals the reference definition
  \<open>min (max value lower) upper\<close>. For every real \<open>v\<close> and each of the upper bounds
  10 (rate), 3 (pitch) and 1 (volume), \<open>clamp 0 v b\<close> lies in the closed range from 0 to
  \<open>b\<close>, equals \<open>v\<close> when \<open>v\<close> is in the range, equals 0 when \<open>v\<close> is negative, and
  equals \<open>b\<close> when \<open>v\<close> exceeds \<open>b\<close>.
\<close>

theorem clamp_is_reference:
  "clamp lower v upper = clamp_reference lower v upper \<and>
   (\<forall>b \<in> {10, 3, 1}.
      0 \<le> clamp 0 v b \<and> clamp 0 v b \<le> b \<and>
      (0 \<le> v \<and> v \<le> b \<longrightarrow> clamp 0 v b = v) \<and>
      (v < 0 \<longrightarrow> clamp 0 v b = 0) \<and>
      (b < v \<longrightarrow> clamp 0 v b = b))"
  by (simp add: clamp_eq clamp_reference_def)

theorem clamp_is_reference_witness:
  "clamp 0 (-5) 10 = 0 \<and> clamp 0 4 10 = 4 \<and> clamp 0 99 10 = 10 \<and>
   clamp 0 (-5) 3 = 0 \<and> clamp 0 2 3 = 2 \<and> clamp 0 99 3 = 3 \<and>
   clamp 0 (-5) 1 = 0 \<and> clamp 0 (1/2) 1 = 1/2 \<and> clamp 0 99 1 = 1 \<and>
   clamp 2 7 5 = clamp_reference 2 7 5"
  using clamp_is_reference [of 2 7 5] clamp_is_reference [of 0 "-5" 10]
    clamp_is_reference [of 0 4 10] clamp_is_reference [of 0 99 10]
    clamp_is_reference [of 0 2 10] clamp_is_reference [of 0 "1/2" 10]
  by simp

text \<open>
  Claim C8. For all reals with the lower bound above the upper bound, clamp returns the
  upper bound, whatever the value: the lower bound is clipped first, the upper bound
  second.
\<close>

theorem clamp_degenerate_bounds:
  "upper < lower \<Longrightarrow> clamp lower v upper = upper"
  by (simp add: clamp_eq)

theorem clamp_degenerate_bounds_witness:
  "(2::real) < 5 \<and> clamp 5 7 2 = 2 \<and> clamp 5 (-1) 2 = 2 \<and> clamp 5 3 2 = 2"
  using clamp_degenerate_bounds [of 2 5 7] clamp_degenerate_bounds [of 2 5 "-1"]
    clamp_degenerate_bounds [of 2 5 3]
  by simp


section \<open>Single precision\<close>

lemma pow2_powr: "pow2 n = 2 powr of_int n"
  by (simp add: pow2_def powr_real_of_int inverse_eq_divide)

lemma pow2_pos: "0 < pow2 n"
  by (simp add: pow2_def)

lemma float32_exponent_eq:
  assumes "pow2 e \<le> \<bar>x\<bar>" and "\<bar>x\<bar> < pow2 (e + 1)" and "-126 \<le> e"
  shows "float32_exponent x = e"
proof -
  have pos: "0 < \<bar>x\<bar>" using assms(1) pow2_pos [of e] by linarith
  have "of_int e \<le> log 2 \<bar>x\<bar>" using assms(1) pos by (simp add: le_log_iff pow2_powr)
  moreover have "log 2 \<bar>x\<bar> < of_int e + 1"
    using assms(2) pos by (simp add: log_less_iff pow2_powr)
  ultimately have "\<lfloor>log 2 \<bar>x\<bar>\<rfloor> = e" by (simp add: floor_unique)
  with assms(3) show ?thesis by (simp add: float32_exponent_def)
qed

lemma float32_at:
  assumes "pow2 e \<le> \<bar>x\<bar>" and "\<bar>x\<bar> < pow2 (e + 1)" and "-126 \<le> e"
  shows "float32 x = of_int (round_half_even (x / pow2 (e - 23))) * pow2 (e - 23)"
proof -
  have "x \<noteq> 0" using assms(1) pow2_pos [of e] by linarith
  then show ?thesis by (simp add: float32_def float32_exponent_eq [OF assms])
qed








lemma float32_tenth: "float32 (1/10) = 13421773 / 134217728"
  using float32_at [of "-4" "1/10"] by (simp add: pow2_def round_half_even_def)


lemma limit_bounds: "lowest \<le> highest \<Longrightarrow> lowest \<le> limit lowest highest x \<and> limit lowest highest x \<le> highest"
  by (simp add: limit_def)

lemma attribute_bounds:
  "0 \<le> rate_attribute x" "rate_attribute x \<le> 10"
  "0 \<le> pitch_attribute x" "pitch_attribute x \<le> 3"
  "0 \<le> volume_attribute x" "volume_attribute x \<le> 1"
  by (simp_all add: rate_attribute_def pitch_attribute_def volume_attribute_def limit_def
      float32_tenth)


section \<open>Setters on a store\<close>

lemmas setter_defs =
  setVoiceRate_def setVoicePitch_def setVolume_def setLanguage_def setVoiceSpeech_def
  setVoiceText_def setOnBoundary_def setOnEnd_def setOnError_def setOnMark_def
  setOnPause_def setOnResume_def setOnStart_def



lemma config_Some:
  "config w this = Some u \<longleftrightarrow>
     (\<exists>t. instances w this = Some t \<and> utterance_objects w (utterance t) = Some u)"
  by (auto simp: config_def split: option.splits)

lemma handler_of_config_update [simp]:
  "handler_of k (u\<lparr>utterance_text := s\<rparr>) = handler_of k u"
  "handler_of k (u\<lparr>utterance_lang := s\<rparr>) = handler_of k u"
  "handler_of k (u\<lparr>voice := vo\<rparr>) = handler_of k u"
  "handler_of k (u\<lparr>volume := x\<rparr>) = handler_of k u"
  "handler_of k (u\<lparr>rate := x\<rparr>) = handler_of k u"
  "handler_of k (u\<lparr>pitch := x\<rparr>) = handler_of k u"
  by (cases k; simp)+

lemma handler_of_handler_update [simp]:
  "handler_of k (u\<lparr>onboundary := h\<rparr>) = (if k = Boundary then h else handler_of k u)"
  "handler_of k (u\<lparr>onend := h\<rparr>) = (if k = End then h else handler_of k u)"
  "handler_of k (u\<lparr>onerror := h\<rparr>) = (if k = Error then h else handler_of k u)"
  "handler_of k (u\<lparr>onmark := h\<rparr>) = (if k = Mark then h else handler_of k u)"
  "handler_of k (u\<lparr>onpause := h\<rparr>) = (if k = Pause then h else handler_of k u)"
  "handler_of k (u\<lparr>onresume := h\<rparr>) = (if k = Resume then h else handler_of k u)"
  "handler_of k (u\<lparr>onstart := h\<rparr>) = (if k = Start then h else handler_of k u)"
  by (cases k; simp)+

lemma same_attribute_other:
  "b \<noteq> Text \<Longrightarrow> same_attribute b u (u\<lparr>utterance_text := s\<rparr>)"
  "b \<noteq> Lang \<Longrightarrow> same_attribute b u (u\<lparr>utterance_lang := s\<rparr>)"
  "b \<noteq> Voice \<Longrightarrow> same_attribute b u (u\<lparr>voice := vo\<rparr>)"
  "b \<noteq> Volume \<Longrightarrow> same_attribute b u (u\<lparr>volume := x\<rparr>)"
  "b \<noteq> Rate \<Longrightarrow> same_attribute b u (u\<lparr>rate := x\<rparr>)"
  "b \<noteq> Pitch \<Longrightarrow> same_attribute b u (u\<lparr>pitch := x\<rparr>)"
  "b \<noteq> Handler Boundary \<Longrightarrow> same_attribute b u (u\<lparr>onboundary := h\<rparr>)"
  "b \<noteq> Handler End \<Longrightarrow> same_attribute b u (u\<lparr>onend := h\<rparr>)"
  "b \<noteq> Handler Error \<Longrightarrow> same_attribute b u (u\<lparr>onerror := h\<rparr>)"
  "b \<noteq> Handler Mark \<Longrightarrow> same_attribute b u (u\<lparr>onmark := h\<rparr>)"
  "b \<noteq> Handler Pause \<Longrightarrow> same_attribute b u (u\<lparr>onpause := h\<rparr>)"
  "b \<noteq> Handler Resume \<Longrightarrow> same_attribute b u (u\<lparr>onresume := h\<rparr>)"
  "b \<noteq> Handler Start \<Longrightarrow> same_attribute b u (u\<lparr>onstart := h\<rparr>)"
  by (cases b; simp)+

lemma clamp_bounds:
  "lower \<le> upper \<Longrightarrow> lower \<le> clamp lower v upper \<and> clamp lower v upper \<le> upper"
  by (simp add: clamp_eq)

lemma assign_writes:
  assumes "instances w this = Some t" and "utterance_objects w (utterance t) = Some u"
    and "\<And>b. b \<noteq> a \<Longrightarrow> same_attribute b u (f u)"
    and "in_range u \<Longrightarrow> in_range (f u)"
  shows "\<exists>u'. return_this this (assign this f w) =
              Inr (w\<lparr>utterance_objects := (utterance_objects w)(utterance t \<mapsto> u')\<rparr>, this) \<and>
           (\<forall>b. b \<noteq> a \<longrightarrow> same_attribute b u u') \<and> (in_range u \<longrightarrow> in_range u')"
  using assms by (auto simp: return_this_def assign_def)

lemma call_writes:
  assumes "instances w this = Some t" and "utterance_objects w (utterance t) = Some u"
    and "own_attribute s = Some a"
  shows "\<exists>u'. call s this w = Inr (w\<lparr>utterance_objects := (utterance_objects w)(utterance t \<mapsto> u')\<rparr>, this) \<and>
              (\<forall>b. b \<noteq> a \<longrightarrow> same_attribute b u u') \<and> (in_range u \<longrightarrow> in_range u')"
  by (insert assms(3),
      (cases s; simp add: setter_defs; rule assign_writes [OF assms(1,2)];
       simp add: same_attribute_other in_range_def attribute_bounds))

lemma call_needs_config:
  assumes "call s this w = Inr (w', r)" and "own_attribute s = Some a"
  shows "\<exists>t u. instances w this = Some t \<and> utterance_objects w (utterance t) = Some u"
  using assms
  by (cases s) (auto simp: setter_defs return_this_def assign_def split: option.splits)

lemma setOnVoicesChanged_Inr:
  "setOnVoicesChanged this cb w =
     Inr (w\<lparr>speechSynthesis := addEventListener
               \<lparr>closure_id = next_ref w, captured_this = this, captured_callback = cb\<rparr>
               (speechSynthesis w),
            next_ref := next_ref w + 1\<rparr>, this)"
  by (simp add: setOnVoicesChanged_def)

lemma call_elim:
  assumes "call s this w = Inr (w', r)"
  obtains (subscribed) cb where "s = SetOnVoicesChanged cb" and "r = this"
      and "w' = w\<lparr>speechSynthesis := addEventListener
               \<lparr>closure_id = next_ref w, captured_this = this, captured_callback = cb\<rparr>
               (speechSynthesis w),
            next_ref := next_ref w + 1\<rparr>"
  | (assigned) a t u u' where "own_attribute s = Some a" and "instances w this = Some t"
      and "utterance_objects w (utterance t) = Some u" and "r = this"
      and "w' = w\<lparr>utterance_objects := (utterance_objects w)(utterance t \<mapsto> u')\<rparr>"
      and "\<And>b. b \<noteq> a \<Longrightarrow> same_attribute b u u'" and "in_range u \<Longrightarrow> in_range u'"
proof (cases "own_attribute s")
  case None
  then obtain cb where "s = SetOnVoicesChanged cb" by (cases s) simp_all
  with assms subscribed show ?thesis by (auto simp: setOnVoicesChanged_Inr)
next
  case (Some a)
  from call_needs_config [OF assms Some] obtain t u
    where tu: "instances w this = Some t" "utterance_objects w (utterance t) = Some u" by blast
  from call_writes [OF tu Some] assms obtain u'
    where "r = this" "w' = w\<lparr>utterance_objects := (utterance_objects w)(utterance t \<mapsto> u')\<rparr>"
      "\<And>b. b \<noteq> a \<Longrightarrow> same_attribute b u u'" "in_range u \<Longrightarrow> in_range u'"
    by auto
  with Some tu assigned show ?thesis by blast
qed

lemma setOn_writes:
  assumes "instances w this = Some t" and "utterance_objects w (utterance t) = Some u"
  shows "\<exists>u'. call (setOn k h) this w =
            Inr (w\<lparr>utterance_objects := (utterance_objects w)(utterance t \<mapsto> u')\<rparr>, this) \<and>
          handler_of k u' = Some h \<and> (\<forall>k'. k' \<noteq> k \<longrightarrow> handler_of k' u' = handler_of k' u)"
  by (insert assms,
      (cases k; simp add: setter_defs return_this_def assign_def; intro exI conjI;
       (rule refl)?; simp))

lemma registered_le_1: "length (registered k u) \<le> 1"
  by (simp add: registered_def split: option.splits)


section \<open>The engine\<close>

lemma getVoices_None [simp]: "getVoices None w = voices (speechSynthesis w)"
  by (simp add: getVoices_def falsy_def)

lemma string_includes_sublist: "string_includes s f = sublist f s"
  by (induction s) (simp_all add: sublist_Cons_right)

lemma string_includes_iff: "string_includes s f = contains_substring s f"
  by (simp add: string_includes_sublist contains_substring_def sublist_def)

lemma fold_run_closure:
  "fold run_closure ls w =
     w\<lparr>invoked := invoked w @ map (\<lambda>l. (captured_callback l, voices (speechSynthesis w))) ls\<rparr>"
  by (induction ls arbitrary: w) (simp_all add: run_closure_def)

lemma voiceschanged_eq:
  "voiceschanged catalog w =
     w\<lparr>speechSynthesis := (speechSynthesis w)\<lparr>voices := catalog\<rparr>,
       invoked := invoked w @ map (\<lambda>l. (captured_callback l, catalog)) (listeners (speechSynthesis w))\<rparr>"
  by (simp add: voiceschanged_def dispatch_voiceschanged_def fold_run_closure)

lemma listeners_addEventListener:
  "listeners (addEventListener l s) =
     (if closure_id l \<in> closure_id ` set (listeners s) then listeners s else listeners s @ [l])"
  by (simp add: addEventListener_def)

lemma addEventListener_other [simp]:
  "voices (addEventListener l s) = voices s"
  "queue (addEventListener l s) = queue s"
  "paused (addEventListener l s) = paused s"
  by (simp_all add: addEventListener_def)

lemma calls_of_firing_eq:
  "calls_of_firing catalog w =
     map (\<lambda>c. (c, catalog)) (map captured_callback (listeners (speechSynthesis w)))"
  by (simp add: calls_of_firing_def voiceschanged_eq comp_def)


section \<open>Invariants of the store\<close>

lemma initial_allocated: "allocated (initial_world catalog)"
  by (simp add: allocated_def initial_world_def)




lemma step_allocated:
  assumes "allocated w"
  shows "allocated (step a w)"
proof (cases a)
  case New
  with assms show ?thesis
    by (fastforce simp: allocated_def new_TextToSpeech_def Let_def)
next
  case (Set this s)
  show ?thesis
  proof (cases "call s this w")
    case (Inl e)
    with Set assms show ?thesis by simp
  next
    case (Inr p)
    then obtain w' r where c: "call s this w = Inr (w', r)" by (cases p) simp
    from c have "allocated w'"
    proof (cases rule: call_elim)
      case (subscribed cb)
      with assms show ?thesis
        by (fastforce simp: allocated_def listeners_addEventListener)
    next
      case (assigned a t u u')
      with assms show ?thesis
        by (auto simp: allocated_def)
    qed
    with Set c show ?thesis by simp
  qed
next
  case (Speak this)
  with assms show ?thesis
    by (auto simp: allocated_def speak_def split: option.splits)
next
  case CancelSpeech
  with assms show ?thesis by (simp add: allocated_def cancelSpeech_def)
next
  case PauseSpeech
  with assms show ?thesis by (simp add: allocated_def pauseSpeech_def)
next
  case ResumeSpeech
  with assms show ?thesis by (simp add: allocated_def resumeSpeech_def)
next
  case (VoicesChanged catalog)
  with assms show ?thesis by (simp add: allocated_def voiceschanged_eq)
qed

lemma new_TextToSpeech_fresh:
  assumes "allocated w" and "new_TextToSpeech w = (w0, new)"
  shows "instances w new = None \<and> instances w0 new = Some \<lparr>utterance = next_ref w + 1\<rparr> \<and>
         utterance_objects w (next_ref w + 1) = None \<and>
         utterance_objects w0 (next_ref w + 1) = Some new_SpeechSynthesisUtterance \<and>
         allocated w0"
proof -
  from assms(1) have "instances w (next_ref w) = None"
    by (cases "instances w (next_ref w)") (auto simp: allocated_def)
  moreover from assms(1) have "utterance_objects w (next_ref w + 1) = None"
    by (cases "utterance_objects w (next_ref w + 1)") (auto simp: allocated_def)
  moreover have "allocated (step New w)"
    using assms(1) by (rule step_allocated)
  ultimately show ?thesis
    using assms(2) by (auto simp: new_TextToSpeech_def Let_def)
qed


lemma step_instances:
  assumes "allocated w" and "instances w this = Some t"
  shows "instances (step a w) this = Some t"
proof (cases a)
  case New
  from assms have "this \<noteq> next_ref w" by (auto simp: allocated_def)
  with New assms show ?thesis by (simp add: new_TextToSpeech_def Let_def)
next
  case (Set that s)
  show ?thesis
  proof (cases "call s that w")
    case (Inl e)
    with Set assms show ?thesis by simp
  next
    case (Inr p)
    then obtain w' r where c: "call s that w = Inr (w', r)" by (cases p) simp
    from c have "instances w' = instances w"
      by (cases rule: call_elim) simp_all
    with Set c assms show ?thesis by simp
  qed
next
  case (Speak that)
  with assms show ?thesis by (auto simp: speak_def split: option.splits)
next
  case CancelSpeech
  with assms show ?thesis by (simp add: cancelSpeech_def)
next
  case PauseSpeech
  with assms show ?thesis by (simp add: pauseSpeech_def)
next
  case ResumeSpeech
  with assms show ?thesis by (simp add: resumeSpeech_def)
next
  case (VoicesChanged catalog)
  with assms show ?thesis by (simp add: voiceschanged_eq)
qed

lemma step_callbacks:
  assumes "allocated w"
  shows "map captured_callback (listeners (speechSynthesis (step a w))) =
         map captured_callback (listeners (speechSynthesis w)) @ subscriptions [a]"
proof (cases a)
  case New
  then show ?thesis by (simp add: new_TextToSpeech_def Let_def)
next
  case (Set this s)
  show ?thesis
  proof (cases "call s this w")
    case (Inl e)
    then have "subscriptions [Set this s] = []"
      by (cases s) (simp_all add: setOnVoicesChanged_Inr)
    with Set Inl show ?thesis by simp
  next
    case (Inr p)
    then obtain w' r where c: "call s this w = Inr (w', r)" by (cases p) simp
    from c show ?thesis
    proof (cases rule: call_elim)
      case (subscribed cb)
      from assms have "next_ref w \<notin> closure_id ` set (listeners (speechSynthesis w))"
        by (auto simp: allocated_def)
      with subscribed Set c show ?thesis by (simp add: listeners_addEventListener)
    next
      case (assigned a t u u')
      then have "subscriptions [Set this s] = []" by (cases s) simp_all
      with assigned Set c show ?thesis by simp
    qed
  qed
next
  case (Speak this)
  then show ?thesis by (auto simp: speak_def split: option.splits)
next
  case CancelSpeech
  then show ?thesis by (simp add: cancelSpeech_def)
next
  case PauseSpeech
  then show ?thesis by (simp add: pauseSpeech_def)
next
  case ResumeSpeech
  then show ?thesis by (simp add: resumeSpeech_def)
next
  case (VoicesChanged catalog)
  then show ?thesis by (simp add: voiceschanged_eq)
qed

lemma run_Cons: "run (a # as) w = run as (step a w)"
  by (simp add: run_def)

lemma run_allocated: "allocated w \<Longrightarrow> allocated (run actions w)"
  unfolding run_def by (induction actions arbitrary: w) (simp_all add: step_allocated)


lemma run_instances:
  "allocated w \<Longrightarrow> instances w this = Some t \<Longrightarrow> instances (run actions w) this = Some t"
  unfolding run_def
  by (induction actions arbitrary: w) (simp_all add: step_allocated step_instances)

lemma subscriptions_Cons: "subscriptions (a # as) = subscriptions [a] @ subscriptions as"
proof (cases a)
  case (Set this s)
  then show ?thesis by (cases s) simp_all
qed simp_all

lemma run_callbacks:
  "allocated w \<Longrightarrow>
   map captured_callback (listeners (speechSynthesis (run actions w))) =
   map captured_callback (listeners (speechSynthesis w)) @ subscriptions actions"
proof (induction actions arbitrary: w)
  case Nil
  then show ?case by (simp add: run_def)
next
  case (Cons a as)
  from Cons.prems have "allocated (step a w)" by (rule step_allocated)
  from Cons.IH [OF this] step_callbacks [OF Cons.prems, of a]
  show ?case by (simp add: run_def subscriptions_Cons [of a as])
qed


lemmas eval_defs =
  run_def initial_world_def new_TextToSpeech_def new_SpeechSynthesisUtterance_def
  setter_defs setOnVoicesChanged_def addEventListener_def assign_def return_this_def
  speak_def cancelSpeech_def pauseSpeech_def resumeSpeech_def
  voiceschanged_def dispatch_voiceschanged_def run_closure_def getVoices_def falsy_def
  config_def Let_def


section \<open>What the configuration setters store\<close>










section \<open>The voice query returns the filtered catalog\<close>

text \<open>
  Claim C4. For every catalog of the engine and every filter string \<open>f\<close>, \<open>getVoices\<close>
  with no filter returns the whole catalog, in order, and \<open>getVoices f\<close> returns exactly
  the voices, in the catalog's order, whose language tag contains \<open>f\<close> as a substring,
  characters compared as they are; the result is a subsequence of the catalog, and it is
  empty when the catalog is.
\<close>

theorem getVoices_filters:
  "getVoices None w = voices (speechSynthesis w) \<and>
   getVoices (Some f) w =
     filter (\<lambda>v. contains_substring (lang v) f) (voices (speechSynthesis w)) \<and>
   subseq (getVoices flt w) (voices (speechSynthesis w)) \<and>
   (voices (speechSynthesis w) = [] \<longrightarrow> getVoices flt w = [])"
proof -
  have "contains_substring s []" for s
    unfolding contains_substring_def by (rule exI [of _ "[]"], rule exI [of _ s]) simp
  then have "getVoices (Some f) w =
      filter (\<lambda>v. contains_substring (lang v) f) (voices (speechSynthesis w))"
    by (cases "f = []") (simp_all add: getVoices_def falsy_def string_includes_iff Let_def)
  moreover have "subseq (getVoices flt w) (voices (speechSynthesis w))"
    by (cases flt) (simp_all add: getVoices_def falsy_def Let_def)
  ultimately show ?thesis
    by (cases flt) (simp_all add: getVoices_def falsy_def Let_def)
qed

theorem getVoices_filters_witness:
  "getVoices (Some ''en'')
     (initial_world
       [\<lparr>voiceURI = ''a'', name = ''Ava'', lang = ''en-US''\<rparr>,
        \<lparr>voiceURI = ''b'', name = ''Luc'', lang = ''fr-FR''\<rparr>,
        \<lparr>voiceURI = ''c'', name = ''Kim'', lang = ''EN-GB''\<rparr>,
        \<lparr>voiceURI = ''d'', name = ''Tom'', lang = ''en-GB''\<rparr>]) =
     [\<lparr>voiceURI = ''a'', name = ''Ava'', lang = ''en-US''\<rparr>,
      \<lparr>voiceURI = ''d'', name = ''Tom'', lang = ''en-GB''\<rparr>] \<and>
   getVoices None (initial_world [\<lparr>voiceURI = ''b'', name = ''Luc'', lang = ''fr-FR''\<rparr>]) =
     [\<lparr>voiceURI = ''b'', name = ''Luc'', lang = ''fr-FR''\<rparr>] \<and>
   getVoices (Some ''en'') (initial_world []) = []"
  using getVoices_filters [of "initial_world
       [\<lparr>voiceURI = ''a'', name = ''Ava'', lang = ''en-US''\<rparr>,
        \<lparr>voiceURI = ''b'', name = ''Luc'', lang = ''fr-FR''\<rparr>,
        \<lparr>voiceURI = ''c'', name = ''Kim'', lang = ''EN-GB''\<rparr>,
        \<lparr>voiceURI = ''d'', name = ''Tom'', lang = ''en-GB''\<rparr>]" "''en''" None]
    getVoices_filters [of "initial_world [\<lparr>voiceURI = ''b'', name = ''Luc'', lang = ''fr-FR''\<rparr>]"
      "''en''" None]
    getVoices_filters [of "initial_world []" "''en''" "Some ''en''"]
  by (simp add: initial_world_def string_includes_iff [symmetric])


section \<open>Chaining and the frame of the setters\<close>

text \<open>
  Claim C5. Every setter (the six configuration setters, the seven handler setters and
  \<open>setOnVoicesChanged\<close>) returns the reference of the instance it was called on, and
  leaves that instance in place: whatever a call returns is \<open>this\<close>, and on an instance
  with its utterance configuration the call does return.
\<close>

theorem setters_return_this:
  "(\<forall>w' r. call s this w = Inr (w', r) \<longrightarrow> r = this \<and> instances w' = instances w) \<and>
   (config w this \<noteq> None \<longrightarrow> (\<exists>w'. call s this w = Inr (w', this)))"
proof (intro conjI allI impI)
  fix w' r
  assume c: "call s this w = Inr (w', r)"
  then show "r = this" by (cases rule: call_elim) simp_all
  from c show "instances w' = instances w" by (cases rule: call_elim) simp_all
next
  assume "config w this \<noteq> None"
  then obtain t u where tu: "instances w this = Some t" "utterance_objects w (utterance t) = Some u"
    by (auto simp: config_Some)
  show "\<exists>w'. call s this w = Inr (w', this)"
  proof (cases "own_attribute s")
    case None
    then obtain cb where "s = SetOnVoicesChanged cb" by (cases s) simp_all
    then show ?thesis by (simp add: setOnVoicesChanged_Inr)
  next
    case (Some a)
    from call_writes [OF tu Some] show ?thesis by blast
  qed
qed

theorem setters_return_this_witness:
  "(\<exists>w'. call (SetVoiceRate 1) 0 (run [New] (initial_world [])) = Inr (w', 0)) \<and>
   (\<exists>w'. call (SetOnStart 7) 0 (run [New] (initial_world [])) = Inr (w', 0)) \<and>
   (\<exists>w'. call (SetVoiceText ''Hello World!'') 0 (run [New] (initial_world [])) = Inr (w', 0))"
proof -
  have "config (run [New] (initial_world [])) 0 \<noteq> None"
    by (simp add: eval_defs)
  with setters_return_this [of "SetVoiceRate 1" 0 "run [New] (initial_world [])"]
    setters_return_this [of "SetOnStart 7" 0 "run [New] (initial_world [])"]
    setters_return_this [of "SetVoiceText ''Hello World!''" 0 "run [New] (initial_world [])"]
  show ?thesis by blast
qed

text \<open>
  Claim C10. Each of the setters that write the utterance (in particular the six
  configuration setters: \<open>setVoiceRate\<close> the rate, \<open>setVoicePitch\<close> the pitch,
  \<open>setVolume\<close> the volume, \<open>setLanguage\<close> the language, \<open>setVoiceSpeech\<close> the voice,
  \<open>setVoiceText\<close> the text) changes the utterance object of its instance only, there
  its own attribute only, and nothing else of the store. The utterance object of an
  instance is a new object made by the constructor, and the instance refers to the same
  object after every run.
\<close>

theorem setters_frame:
  assumes "allocated w"
  shows "(\<forall>t u a. instances w this = Some t \<and> utterance_objects w (utterance t) = Some u \<and>
              own_attribute s = Some a \<longrightarrow>
            (\<exists>w' u'. call s this w = Inr (w', this) \<and>
               utterance_objects w' = (utterance_objects w)(utterance t \<mapsto> u') \<and>
               (\<forall>b. b \<noteq> a \<longrightarrow> same_attribute b u u') \<and>
               instances w' = instances w \<and> speechSynthesis w' = speechSynthesis w \<and>
               next_ref w' = next_ref w \<and> invoked w' = invoked w)) \<and>
         (\<forall>t. instances w this = Some t \<longrightarrow> instances (run actions w) this = Some t) \<and>
         (\<forall>w0 new. new_TextToSpeech w = (w0, new) \<longrightarrow>
            instances w new = None \<and>
            (\<exists>t. instances w0 new = Some t \<and> utterance_objects w (utterance t) = None \<and>
                 utterance_objects w0 (utterance t) = Some new_SpeechSynthesisUtterance \<and>
                 instances (run actions w0) new = Some t))"
proof (intro conjI allI impI)
  fix t u a
  assume "instances w this = Some t \<and> utterance_objects w (utterance t) = Some u \<and>
    own_attribute s = Some a"
  then have t: "instances w this = Some t" and u: "utterance_objects w (utterance t) = Some u"
    and a: "own_attribute s = Some a"
    by simp_all
  from call_writes [OF t u a] obtain u'
    where "call s this w =
        Inr (w\<lparr>utterance_objects := (utterance_objects w)(utterance t \<mapsto> u')\<rparr>, this)"
      and "\<forall>b. b \<noteq> a \<longrightarrow> same_attribute b u u'"
    by blast
  then show "\<exists>w' u'. call s this w = Inr (w', this) \<and>
               utterance_objects w' = (utterance_objects w)(utterance t \<mapsto> u') \<and>
               (\<forall>b. b \<noteq> a \<longrightarrow> same_attribute b u u') \<and>
               instances w' = instances w \<and> speechSynthesis w' = speechSynthesis w \<and>
               next_ref w' = next_ref w \<and> invoked w' = invoked w"
    by (intro exI [of _ "w\<lparr>utterance_objects := (utterance_objects w)(utterance t \<mapsto> u')\<rparr>"]
        exI [of _ u']) simp
next
  fix t
  assume "instances w this = Some t"
  with assms show "instances (run actions w) this = Some t"
    by (rule run_instances)
next
  fix w0 new
  assume n: "new_TextToSpeech w = (w0, new)"
  note f = new_TextToSpeech_fresh [OF assms n]
  from f show "instances w new = None" by simp
  from f have "allocated w0" and "instances w0 new = Some \<lparr>utterance = next_ref w + 1\<rparr>"
    by simp_all
  then have "instances (run actions w0) new = Some \<lparr>utterance = next_ref w + 1\<rparr>"
    by (rule run_instances)
  with f show "\<exists>t. instances w0 new = Some t \<and> utterance_objects w (utterance t) = None \<and>
                 utterance_objects w0 (utterance t) = Some new_SpeechSynthesisUtterance \<and>
                 instances (run actions w0) new = Some t"
    by simp
qed

theorem setters_frame_witness:
  "\<exists>w' u'. call (SetVoiceRate 99) 0 (run [New] (initial_world [])) = Inr (w', 0) \<and>
     config w' 0 = Some u' \<and> pitch u' = 1 \<and> volume u' = 1 \<and> utterance_text u' = [] \<and>
     instances w' 0 = Some \<lparr>utterance = 1\<rparr> \<and>
     instances (run [New, Set 0 (SetVolume 3)] (run [New] (initial_world []))) 0 =
       Some \<lparr>utterance = 1\<rparr>"
proof -
  let ?w = "run [New] (initial_world [])"
  have al: "allocated ?w"
    by (rule run_allocated [OF initial_allocated])
  have t: "instances ?w 0 = Some \<lparr>utterance = 1\<rparr>"
    and u: "utterance_objects ?w 1 = Some new_SpeechSynthesisUtterance"
    by (simp_all add: eval_defs)
  from setters_frame [OF al, of 0 "SetVoiceRate 99" "[New, Set 0 (SetVolume 3)]"] t u
  obtain w' u' where c: "call (SetVoiceRate 99) 0 ?w = Inr (w', 0)"
    and o: "utterance_objects w' = (utterance_objects ?w)(1 \<mapsto> u')"
    and s: "\<forall>b. b \<noteq> Rate \<longrightarrow> same_attribute b new_SpeechSynthesisUtterance u'"
    and i: "instances w' = instances ?w"
    and r: "instances (run [New, Set 0 (SetVolume 3)] ?w) 0 = Some \<lparr>utterance = 1\<rparr>"
    by fastforce
  from spec [OF s, of Pitch] spec [OF s, of Volume] spec [OF s, of Text]
  have "pitch u' = 1" and "volume u' = 1" and "utterance_text u' = []"
    by (simp_all add: new_SpeechSynthesisUtterance_def)
  moreover from o i t have "config w' 0 = Some u'" and "instances w' 0 = Some \<lparr>utterance = 1\<rparr>"
    by (simp_all add: config_def)
  ultimately show ?thesis using c r by blast
qed


section \<open>Event handlers and subscriptions\<close>

text \<open>
  Claim C6. For each of the seven utterance event kinds, the handler setter replaces the
  handler registered for that kind: after the setter is called with \<open>h1\<close> exactly
  \<open>h1\<close> is registered, after it is called again with \<open>h2\<close> exactly \<open>h2\<close> is, and
  the other kinds keep what they had. At each of these points every kind has at most one
  registered callback.
\<close>

theorem handler_setters_replace:
  assumes "config w this = Some u"
  shows "\<exists>w1 u1 w2 u2.
           call (setOn k h1) this w = Inr (w1, this) \<and> config w1 this = Some u1 \<and>
           registered k u1 = [h1] \<and>
           call (setOn k h2) this w1 = Inr (w2, this) \<and> config w2 this = Some u2 \<and>
           registered k u2 = [h2] \<and>
           (\<forall>k'. k' \<noteq> k \<longrightarrow> registered k' u2 = registered k' u) \<and>
           (\<forall>k'. length (registered k' u) \<le> 1 \<and> length (registered k' u1) \<le> 1 \<and>
                 length (registered k' u2) \<le> 1)"
proof -
  from assms obtain t where t: "instances w this = Some t"
    and u: "utterance_objects w (utterance t) = Some u"
    by (auto simp: config_Some)
  from setOn_writes [OF t u, of k h1] obtain u1
    where c1: "call (setOn k h1) this w =
        Inr (w\<lparr>utterance_objects := (utterance_objects w)(utterance t \<mapsto> u1)\<rparr>, this)"
      and h1: "handler_of k u1 = Some h1"
      and o1: "\<forall>k'. k' \<noteq> k \<longrightarrow> handler_of k' u1 = handler_of k' u"
    by blast
  let ?w1 = "w\<lparr>utterance_objects := (utterance_objects w)(utterance t \<mapsto> u1)\<rparr>"
  have t1: "instances ?w1 this = Some t" and u1: "utterance_objects ?w1 (utterance t) = Some u1"
    using t by simp_all
  from setOn_writes [OF t1 u1, of k h2] obtain u2
    where c2: "call (setOn k h2) this ?w1 =
        Inr (?w1\<lparr>utterance_objects := (utterance_objects ?w1)(utterance t \<mapsto> u2)\<rparr>, this)"
      and h2: "handler_of k u2 = Some h2"
      and o2: "\<forall>k'. k' \<noteq> k \<longrightarrow> handler_of k' u2 = handler_of k' u1"
    by blast
  let ?w2 = "?w1\<lparr>utterance_objects := (utterance_objects ?w1)(utterance t \<mapsto> u2)\<rparr>"
  have "config ?w1 this = Some u1" and "config ?w2 this = Some u2"
    using t by (simp_all add: config_def)
  moreover have "registered k u1 = [h1]" and "registered k u2 = [h2]"
    using h1 h2 by (simp_all add: registered_def)
  moreover have "\<forall>k'. k' \<noteq> k \<longrightarrow> registered k' u2 = registered k' u"
    using o1 o2 by (simp add: registered_def)
  ultimately show ?thesis
    using c1 c2 registered_le_1 by blast
qed

theorem handler_setters_replace_witness:
  "\<exists>w1 u1 w2 u2.
     call (setOn Start 11) 0 (run [New] (initial_world [])) = Inr (w1, 0) \<and>
     config w1 0 = Some u1 \<and> registered Start u1 = [11] \<and>
     call (setOn Start 22) 0 w1 = Inr (w2, 0) \<and>
     config w2 0 = Some u2 \<and> registered Start u2 = [22]"
proof -
  have "config (run [New] (initial_world [])) 0 = Some new_SpeechSynthesisUtterance"
    by (simp add: eval_defs)
  from handler_setters_replace [OF this, of Start 11 22]
  show ?thesis by blast
qed

text \<open>
  Claim C7. After \<open>setOnVoicesChanged callback\<close>, and after any further run, a firing
  of \<open>voiceschanged\<close> calls \<open>callback\<close> with the result of \<open>getVoices\<close> with no filter
  at that moment, which is the engine's whole current catalog.
\<close>

theorem voiceschanged_invokes_callback:
  assumes "allocated w" and "setOnVoicesChanged this cb w = Inr (w1, r)"
  shows "(cb, getVoices None (voiceschanged catalog (run actions w1)))
           \<in> set (calls_of_firing catalog (run actions w1)) \<and>
         getVoices None (voiceschanged catalog (run actions w1)) = catalog"
proof -
  have "step (Set this (SetOnVoicesChanged cb)) w = w1"
    using assms(2) by simp
  then have "run actions w1 = run (Set this (SetOnVoicesChanged cb) # actions) w"
    by (simp add: run_Cons)
  with run_callbacks [OF assms(1), of "Set this (SetOnVoicesChanged cb) # actions"]
  have "cb \<in> set (map captured_callback (listeners (speechSynthesis (run actions w1))))"
    by simp
  then have "(cb, catalog) \<in> set (calls_of_firing catalog (run actions w1))"
    unfolding calls_of_firing_eq by (simp add: image_iff)
  moreover have "getVoices None (voiceschanged catalog (run actions w1)) = catalog"
    by (simp add: voiceschanged_eq)
  ultimately show ?thesis by simp
qed

theorem voiceschanged_invokes_callback_witness:
  "\<exists>w1. setOnVoicesChanged 0 5 (initial_world []) = Inr (w1, 0) \<and>
     (5, getVoices None (voiceschanged [\<lparr>voiceURI = ''a'', name = ''Ava'', lang = ''en-US''\<rparr>]
            (run [VoicesChanged [], New] w1)))
       \<in> set (calls_of_firing [\<lparr>voiceURI = ''a'', name = ''Ava'', lang = ''en-US''\<rparr>]
            (run [VoicesChanged [], New] w1)) \<and>
     getVoices None (voiceschanged [\<lparr>voiceURI = ''a'', name = ''Ava'', lang = ''en-US''\<rparr>]
            (run [VoicesChanged [], New] w1)) =
       [\<lparr>voiceURI = ''a'', name = ''Ava'', lang = ''en-US''\<rparr>]"
proof -
  obtain w1 where w1: "setOnVoicesChanged 0 5 (initial_world []) = Inr (w1, 0)"
    by (simp add: setOnVoicesChanged_Inr)
  from voiceschanged_invokes_callback [OF initial_allocated w1] w1
  show ?thesis by blast
qed

text \<open>
  Claim C9. Calls of \<open>setOnVoicesChanged\<close> accumulate: a firing of \<open>voiceschanged\<close>
  calls the callback of every listener registered before the run and then the callback
  of every \<open>setOnVoicesChanged\<close> call of the run, in order, each once per call; after
  \<open>n\<close> calls with \<open>c1 .. cn\<close> all \<open>n\<close> are called, and none is removed.
\<close>

theorem subscriptions_accumulate:
  assumes "allocated w"
  shows "calls_of_firing catalog (run actions w) =
           map (\<lambda>l. (captured_callback l, catalog)) (listeners (speechSynthesis w)) @
           map (\<lambda>c. (c, catalog)) (subscriptions actions) \<and>
         calls_of_firing catalog (run (map (\<lambda>c. Set this (SetOnVoicesChanged c)) cbs) w) =
           map (\<lambda>l. (captured_callback l, catalog)) (listeners (speechSynthesis w)) @
           map (\<lambda>c. (c, catalog)) cbs"
proof -
  have *: "calls_of_firing catalog (run as w) =
           map (\<lambda>l. (captured_callback l, catalog)) (listeners (speechSynthesis w)) @
           map (\<lambda>c. (c, catalog)) (subscriptions as)" for as
    unfolding calls_of_firing_eq run_callbacks [OF assms] by (simp add: comp_def)
  have "subscriptions (map (\<lambda>c. Set this (SetOnVoicesChanged c)) cbs) = cbs"
    by (induction cbs) simp_all
  with * [of actions] * [of "map (\<lambda>c. Set this (SetOnVoicesChanged c)) cbs"]
  show ?thesis by simp
qed

theorem subscriptions_accumulate_witness:
  "calls_of_firing [\<lparr>voiceURI = ''a'', name = ''Ava'', lang = ''en-US''\<rparr>]
     (run (map (\<lambda>c. Set 0 (SetOnVoicesChanged c)) [7, 8, 7]) (initial_world [])) =
   [(7, [\<lparr>voiceURI = ''a'', name = ''Ava'', lang = ''en-US''\<rparr>]),
    (8, [\<lparr>voiceURI = ''a'', name = ''Ava'', lang = ''en-US''\<rparr>]),
    (7, [\<lparr>voiceURI = ''a'', name = ''Ava'', lang = ''en-US''\<rparr>])]"
  using subscriptions_accumulate [OF initial_allocated, of "[\<lparr>voiceURI = ''a'', name = ''Ava'', lang = ''en-US''\<rparr>]"
      "[]" "[]" 0 "[7, 8, 7]"]
  by (simp add: initial_world_def)

end
